theory Spec2Isabelle
  imports Main "HOL-Library.Word"
begin

section \<open>Data model of \<open>main.py\<close>\<close>

text \<open>
  The four named tuples of the script.  \<open>Point\<close> holds the chunk size in pixels,
  \<open>Image\<close> is the descriptor produced by validation, \<open>Brackets\<close> the pair of
  replacement bracket strings and \<open>Chunk\<close> one serialised group (header and data).
  A path is modelled by its final component, the file name: only \<open>stem\<close> and
  \<open>name\<close> of a path are ever used.
\<close>

record Point =
  point_x :: nat
  point_y :: nat

record Image =
  path :: string
  chx :: nat
  chy :: nat

record Brackets =
  br_open :: string
  br_close :: string

record Chunk =
  chunk_name :: string
  chunk_data :: string

text \<open>
  Exceptions of the Python run time that the modelled code can raise, and the three ways a
  candidate file leaves the \<open>try\<close> block of \<open>get_image_tuples\<close> without a
  descriptor: the two local exception classes and the catch-all \<open>except Exception\<close>.
\<close>

datatype py_error = IndexError | ZeroDivisionError | ValueError | AttributeError | TypeError
  | SystemExit

datatype rejection = NotAnImage | TooSmallImage | OtherException py_error

text \<open>
  The decoder \<open>cv2.imread(_, IMREAD_COLOR)\<close> yields either nothing or an array of shape
  \<open>(shape0, shape1, 3)\<close> of bytes, channels stored blue, green, red.  The array is the
  shape together with the pixel at each position; a pixel is its three channels in
  storage order.
\<close>

type_synonym pixel = "8 word \<times> 8 word \<times> 8 word"

record ndarray =
  shape0 :: nat
  shape1 :: nat
  pixel_at :: "nat \<Rightarrow> nat \<Rightarrow> pixel"

definition array_size :: "ndarray \<Rightarrow> nat" where
  "array_size a = shape0 a * shape1 a * 3"

text \<open>
  \<open>image[r, c]\<close> on a decode result: subscripting \<open>None\<close> raises \<open>TypeError\<close>, and
  numpy raises \<open>IndexError\<close> outside the shape.
\<close>

definition getitem :: "ndarray option \<Rightarrow> nat \<Rightarrow> nat \<Rightarrow> py_error + pixel" where
  "getitem decoded r c =
     (case decoded of
        None \<Rightarrow> Inl TypeError
      | Some a \<Rightarrow> if r < shape0 a \<and> c < shape1 a then Inr (pixel_at a r c) else Inl IndexError)"

text \<open>\<open>[::-1]\<close> on the three channels.\<close>

fun reversed :: "pixel \<Rightarrow> pixel" where
  "reversed (c0, c1, c2) = (c2, c1, c0)"

section \<open>Number formatting\<close>

definition hex_digit :: "nat \<Rightarrow> char" where
  "hex_digit d = ''0123456789abcdef'' ! d"

text \<open>The format specification \<open>x\<close>: lowercase hexadecimal without padding.\<close>

fun format_x :: "nat \<Rightarrow> string" where
  "format_x n = (if n < 16 then [hex_digit n] else format_x (n div 16) @ [hex_digit (n mod 16)])"

text \<open>The format specification \<open>02x\<close>: zero-padded on the left to at least two characters.\<close>

definition format_02x :: "nat \<Rightarrow> string" where
  "format_02x n = replicate (2 - length (format_x n)) (CHR ''0'') @ format_x n"

text \<open>\<open>"#{0:02x}{1:02x}{2:02x}".format(*p)\<close> for the three values of \<open>p\<close>.\<close>

fun format_color :: "pixel \<Rightarrow> string" where
  "format_color (v0, v1, v2) =
     ''#'' @ format_02x (unat v0) @ format_02x (unat v1) @ format_02x (unat v2)"

definition dec_digit :: "nat \<Rightarrow> char" where
  "dec_digit d = ''0123456789'' ! d"

text \<open>\<open>str(n)\<close> of a non-negative integer.\<close>

fun str_int :: "nat \<Rightarrow> string" where
  "str_int n = (if n < 10 then [dec_digit n] else str_int (n div 10) @ [dec_digit (n mod 10)])"

declare format_x.simps [simp del] str_int.simps [simp del]

section \<open>Validation: \<open>get_image_tuples\<close>\<close>

text \<open>
  The body of the \<open>try\<close> block for one candidate path.  \<open>imread\<close> is the decoder, a
  parameter of the model.  A missing decode result has no attribute \<open>size\<close>, which the
  catch-all handler receives as an \<open>AttributeError\<close>.  \<open>math.floor(a / b)\<close> on two
  non-negative integers is \<open>a div b\<close> (the float quotient is exact enough for every
  array dimension a decoder can return), and raises \<open>ZeroDivisionError\<close> for \<open>b = 0\<close>.
\<close>

definition check_image :: "(string \<Rightarrow> ndarray option) \<Rightarrow> Point \<Rightarrow> string \<Rightarrow> rejection + Image" where
  "check_image imread chunk_size image_path =
     (case imread image_path of
        None \<Rightarrow> Inl (OtherException AttributeError)
      | Some img \<Rightarrow>
          if array_size img = 0 then Inl NotAnImage
          else if point_y chunk_size = 0 \<or> point_x chunk_size = 0
            then Inl (OtherException ZeroDivisionError)
          else
            let vertical_ch = shape0 img div point_y chunk_size;
                horizontal_ch = shape1 img div point_x chunk_size
            in if \<not> (vertical_ch \<noteq> 0 \<and> horizontal_ch \<noteq> 0) then Inl TooSmallImage
               else Inr \<lparr>path = image_path, chx = horizontal_ch, chy = vertical_ch\<rparr>)"

text \<open>
  The loop over \<open>image_paths\<close>: every handler ends in \<open>continue\<close>, so a rejected
  candidate leaves \<open>image_tuples\<close> as it was.
\<close>

fun image_loop :: "(string \<Rightarrow> ndarray option) \<Rightarrow> Point \<Rightarrow> string list \<Rightarrow> Image list \<Rightarrow> Image list" where
  "image_loop imread chunk_size [] image_tuples = image_tuples"
| "image_loop imread chunk_size (image_path # rest) image_tuples =
     (case check_image imread chunk_size image_path of
        Inr t \<Rightarrow> image_loop imread chunk_size rest (image_tuples @ [t])
      | Inl _ \<Rightarrow> image_loop imread chunk_size rest image_tuples)"

text \<open>
  \<open>get_image_tuples\<close> from the point where \<open>image_paths\<close> has been resolved from the
  input path (lines 59 to 78); an empty list of candidates ends the process.
\<close>

definition get_image_tuples :: "(string \<Rightarrow> ndarray option) \<Rightarrow> string list \<Rightarrow> Point \<Rightarrow> py_error + Image list" where
  "get_image_tuples imread image_paths chunk_size =
     (if image_paths = [] then Inl SystemExit
      else Inr (image_loop imread chunk_size image_paths []))"

section \<open>Chunk extraction: \<open>get_chunks_dict\<close>\<close>

text \<open>Evaluating a list of fallible computations from left to right; the first error wins.\<close>

fun sequence :: "('e + 'a) list \<Rightarrow> 'e + 'a list" where
  "sequence [] = Inr []"
| "sequence (r # rs) =
     (case r of
        Inl e \<Rightarrow> Inl e
      | Inr v \<Rightarrow> (case sequence rs of Inl e \<Rightarrow> Inl e | Inr vs \<Rightarrow> Inr (v # vs)))"

text \<open>
  An \<open>OrderedDict\<close> is an association list in insertion order.  Storing under a key that
  is present replaces the value where it stands; a new key goes to the end.
\<close>

type_synonym ('k, 'v) ordered_dict = "('k \<times> 'v) list"

fun od_setitem :: "('k, 'v) ordered_dict \<Rightarrow> 'k \<times> 'v \<Rightarrow> ('k, 'v) ordered_dict" where
  "od_setitem [] (k, v) = [(k, v)]"
| "od_setitem (e # d) (k, v) = (if fst e = k then (k, v) # d else e # od_setitem d (k, v))"

definition OrderedDict :: "('k \<times> 'v) list \<Rightarrow> ('k, 'v) ordered_dict" where
  "OrderedDict items = foldl od_setitem [] items"

type_synonym chunk_matrix = "string list list"

text \<open>The inner two comprehensions: the colour matrix of the chunk at \<open>(ch_column, ch_row)\<close>.\<close>

definition chunk_rows :: "ndarray option \<Rightarrow> Point \<Rightarrow> nat \<Rightarrow> nat \<Rightarrow> py_error + chunk_matrix" where
  "chunk_rows decoded chunk_size ch_column ch_row =
     sequence (map (\<lambda>y.
       sequence (map (\<lambda>x.
         map_sum id (\<lambda>p. format_color (reversed p))
           (getitem decoded (y + ch_row * point_y chunk_size) (x + ch_column * point_x chunk_size)))
         [0..<point_x chunk_size]))
       [0..<point_y chunk_size])"

text \<open>The coordinates in generation order: \<open>for ch_row in range(chy) for ch_column in range(chx)\<close>.\<close>

definition chunk_coords :: "Image \<Rightarrow> (nat \<times> nat) list" where
  "chunk_coords img =
     concat (map (\<lambda>ch_row. map (\<lambda>ch_column. (ch_column, ch_row)) [0..<chx img]) [0..<chy img])"

text \<open>
  The image is decoded a second time from the descriptor's path; the pairs of the generator
  are built in order and handed to \<open>OrderedDict\<close>.
\<close>

definition get_chunks_dict ::
  "(string \<Rightarrow> ndarray option) \<Rightarrow> Image \<Rightarrow> Point \<Rightarrow> py_error + (nat \<times> nat, chunk_matrix) ordered_dict" where
  "get_chunks_dict imread img chunk_size =
     (case sequence (map (\<lambda>(ch_column, ch_row).
              map_sum id (Pair (ch_column, ch_row))
                (chunk_rows (imread (path img)) chunk_size ch_column ch_row))
            (chunk_coords img)) of
        Inl e \<Rightarrow> Inl e
      | Inr items \<Rightarrow> Inr (OrderedDict items))"

section \<open>Group serialisation: \<open>output_generator\<close>\<close>

text \<open>\<open>range(start, stop, step)\<close> for a positive step, element by element.\<close>

function py_range :: "nat \<Rightarrow> nat \<Rightarrow> nat \<Rightarrow> nat list" where
  "py_range i stop step =
     (if 0 < step \<and> i < stop then i # py_range (i + step) stop step else [])"
  by pat_completeness auto
termination
  by (relation "measure (\<lambda>(i, stop, step). stop - i)") auto

declare py_range.simps [simp del]

text \<open>The slice \<open>xs[i:j]\<close> for \<open>0 \<le> i \<le> j\<close>.\<close>

definition py_slice :: "'a list \<Rightarrow> nat \<Rightarrow> nat \<Rightarrow> 'a list" where
  "py_slice xs i j = take (j - i) (drop i xs)"

text \<open>\<open>s.replace(old, new)\<close> for a pattern \<open>old\<close> of one character.\<close>

definition replace :: "string \<Rightarrow> char \<Rightarrow> string \<Rightarrow> string" where
  "replace s old new = concat (map (\<lambda>c. if c = old then new else [c]) s)"

fun join :: "string \<Rightarrow> string list \<Rightarrow> string" where
  "join sep [] = []"
| "join sep [s] = s"
| "join sep (s # t # ts) = s @ sep @ join sep (t # ts)"

text \<open>
  \<open>str\<close> of a list, given how an element is rendered; of a pair of integers; and of a
  string that holds no quote, backslash or control character, as every colour string does.
\<close>

definition str_list :: "('a \<Rightarrow> string) \<Rightarrow> 'a list \<Rightarrow> string" where
  "str_list r xs = ''['' @ join '', '' (map r xs) @ '']''"

fun repr_coord :: "nat \<times> nat \<Rightarrow> string" where
  "repr_coord (a, b) = ''('' @ str_int a @ '', '' @ str_int b @ '')''"

definition repr_str :: "string \<Rightarrow> string" where
  "repr_str s = [CHR 0x27] @ s @ [CHR 0x27]"

definition default_brackets :: Brackets where
  "default_brackets = \<lparr>br_open = ''{'', br_close = ''}''\<rparr>"

text \<open>The pair yielded for the group that starts at index \<open>i\<close>.\<close>

definition group_at ::
  "(nat \<times> nat, chunk_matrix) ordered_dict \<Rightarrow> nat \<Rightarrow> Brackets \<Rightarrow> nat \<Rightarrow> Chunk \<times> nat" where
  "group_at chunks_dict chunks_group_size brackets i =
     (\<lparr>chunk_name =
         replace (replace
           (str_list repr_coord (py_slice (map fst chunks_dict) i (i + chunks_group_size)))
           (CHR ''['') []) (CHR '']'') [],
       chunk_data =
         replace (replace
           (str_list (str_list (str_list repr_str))
              (py_slice (map snd chunks_dict) i (i + chunks_group_size)))
           (CHR ''['') (br_open brackets)) (CHR '']'') (br_close brackets)\<rparr>,
      i div chunks_group_size)"

text \<open>
  Everything the generator yields, in order.  \<open>range\<close> refuses a step of zero with
  \<open>ValueError\<close>; \<open>int(i / chunks_group_size)\<close> is \<open>i div chunks_group_size\<close>.
\<close>

definition output_generator ::
  "(nat \<times> nat, chunk_matrix) ordered_dict \<Rightarrow> nat \<Rightarrow> Brackets \<Rightarrow> py_error + (Chunk \<times> nat) list" where
  "output_generator chunks_dict chunks_group_size brackets =
     (if chunks_group_size = 0 then Inl ValueError
      else Inr (map (group_at chunks_dict chunks_group_size brackets)
                  (py_range 0 (length chunks_dict) chunks_group_size)))"

section \<open>Writing: \<open>store_output\<close>\<close>

text \<open>
  The output directory is a map from file names to contents.  Every \<open>open\<close> is recorded
  with its mode, in order, so that the mode of an open can be stated.
\<close>

datatype open_mode = Append | Truncate

record world =
  files :: "string \<rightharpoonup> string"
  opened :: "(string \<times> open_mode) list"

text \<open>\<open>with open(name, mode) as fh: fh.write(text)\<close>.\<close>

definition open_write :: "world \<Rightarrow> string \<Rightarrow> open_mode \<Rightarrow> string \<Rightarrow> world" where
  "open_write w name mode txt =
     w\<lparr>files := (files w)(name \<mapsto>
          (case mode of
             Truncate \<Rightarrow> txt
           | Append \<Rightarrow> (case files w name of None \<Rightarrow> txt | Some old \<Rightarrow> old @ txt))),
       opened := opened w @ [(name, mode)]\<rparr>"

text \<open>\<open>s.rfind(c)\<close>: the last index of \<open>c\<close>, or \<open>-1\<close>.\<close>

fun rfind :: "string \<Rightarrow> char \<Rightarrow> int" where
  "rfind [] c = - 1"
| "rfind (a # s) c =
     (let r = rfind s c in if 0 \<le> r then r + 1 else if a = c then 0 else - 1)"

text \<open>
  \<open>PurePath.stem\<close> of a file name: the name up to its last dot, when that dot is neither
  the first nor the last character.
\<close>

definition stem :: "string \<Rightarrow> string" where
  "stem name =
     (let i = rfind name (CHR ''.'')
      in if 0 < i \<and> i < int (length name) - 1 then take (nat i) name else name)"

text \<open>Lines 110 to 112: the name of the file a group goes to, inside the output directory.\<close>

definition output_file_name :: "Image \<Rightarrow> nat \<Rightarrow> bool \<Rightarrow> string" where
  "output_file_name img num one_file =
     (let output_file = stem (path img) @ ''['' @ str_int (chx img) @ '','' @ str_int (chy img) @ '']'';
          output_file = (if \<not> one_file then stem output_file @ ''('' @ str_int num @ '')''
                         else output_file)
      in output_file @ ''.txt'')"

text \<open>Line 113.\<close>

definition write_mode :: "bool \<Rightarrow> bool \<Rightarrow> bool \<Rightarrow> open_mode" where
  "write_mode file_exists overwrite one_file =
     (if file_exists \<and> (\<not> overwrite \<or> one_file) then Append else Truncate)"

definition front_code :: "bool \<Rightarrow> string" where
  "front_code add_code = (if add_code then ''mem.data = '' else [])"

definition back_code :: "string \<Rightarrow> bool \<Rightarrow> string" where
  "back_code header add_code =
     (if add_code
      then [CHR 0x0A] @ ''for k,v in ipairs({''
           @ replace (replace (replace header (CHR ''('') [CHR 0x22]) (CHR '')'') [CHR 0x22])
               (CHR '' '') []
           @ ''}) do digiline_send(v, mem.data[k]) end'' @ [CHR 0x0A]
      else [])"

text \<open>The text of line 119.\<close>

definition group_text :: "string \<Rightarrow> string \<Rightarrow> bool \<Rightarrow> string" where
  "group_text header data add_code =
     ''--'' @ header @ [CHR 0x0A, CHR 0x0A] @ front_code add_code @ data @ [CHR 0x0A]
     @ back_code header add_code @ [CHR 0x0A]"

definition store_output ::
  "world \<Rightarrow> string \<Rightarrow> string \<Rightarrow> Image \<Rightarrow> nat \<Rightarrow> bool \<Rightarrow> bool \<Rightarrow> bool \<Rightarrow> world" where
  "store_output w header data img num one_file overwrite add_code =
     (let output_file = output_file_name img num one_file;
          mode = write_mode (files w output_file \<noteq> None) overwrite one_file;
          w = (if overwrite \<and> num = 0 then open_write w output_file Truncate [] else w)
      in open_write w output_file mode (group_text header data add_code))"

section \<open>The run: \<open>main\<close>\<close>

text \<open>The inner loop of \<open>main\<close> over the pairs of the generator.\<close>

definition write_groups ::
  "world \<Rightarrow> Image \<Rightarrow> (Chunk \<times> nat) list \<Rightarrow> bool \<Rightarrow> bool \<Rightarrow> bool \<Rightarrow> world" where
  "write_groups w img groups one_file overwrite add_code =
     foldl (\<lambda>w (chunk_group, num).
              store_output w (chunk_name chunk_group) (chunk_data chunk_group) img num
                one_file overwrite add_code)
       w groups"

text \<open>One round of the outer loop; an exception of extraction ends the run.\<close>

definition process_image ::
  "(string \<Rightarrow> ndarray option) \<Rightarrow> Point \<Rightarrow> nat \<Rightarrow> bool \<Rightarrow> bool \<Rightarrow> bool \<Rightarrow> world \<Rightarrow> Image
     \<Rightarrow> py_error + world" where
  "process_image imread chunk_size g one_file overwrite add_code w img =
     (case get_chunks_dict imread img chunk_size of
        Inl e \<Rightarrow> Inl e
      | Inr chunks_dict \<Rightarrow>
          (case output_generator chunks_dict g default_brackets of
             Inl e \<Rightarrow> Inl e
           | Inr groups \<Rightarrow> Inr (write_groups w img groups one_file overwrite add_code)))"

fun process_images ::
  "(string \<Rightarrow> ndarray option) \<Rightarrow> Point \<Rightarrow> nat \<Rightarrow> bool \<Rightarrow> bool \<Rightarrow> bool \<Rightarrow> world \<Rightarrow> Image list
     \<Rightarrow> py_error + world" where
  "process_images imread chunk_size g one_file overwrite add_code w [] = Inr w"
| "process_images imread chunk_size g one_file overwrite add_code w (img # rest) =
     (case process_image imread chunk_size g one_file overwrite add_code w img of
        Inl e \<Rightarrow> Inl e
      | Inr w' \<Rightarrow> process_images imread chunk_size g one_file overwrite add_code w' rest)"

text \<open>\<open>main\<close> after argument parsing and the path check, with its fixed chunk size.\<close>

definition main ::
  "(string \<Rightarrow> ndarray option) \<Rightarrow> string list \<Rightarrow> nat \<Rightarrow> bool \<Rightarrow> bool \<Rightarrow> bool \<Rightarrow> world
     \<Rightarrow> py_error + world" where
  "main imread image_paths g add_code one_file overwrite w =
     (let chunk_size = \<lparr>point_x = 16, point_y = 16\<rparr>
      in case get_image_tuples imread image_paths chunk_size of
           Inl e \<Rightarrow> Inl e
         | Inr image_tuples \<Rightarrow>
             process_images imread chunk_size g one_file overwrite add_code w image_tuples)"

section \<open>The specification's vocabulary\<close>

text \<open>
  The colour string of a pixel as the specification words it: a hash sign and two lowercase
  hexadecimal digits for each of red, green and blue; and the pattern \<open>#[0-9a-f]{6}\<close>.
\<close>

definition hex_byte :: "8 word \<Rightarrow> string" where
  "hex_byte v = [hex_digit (unat v div 16), hex_digit (unat v mod 16)]"

definition rgb_hex :: "8 word \<Rightarrow> 8 word \<Rightarrow> 8 word \<Rightarrow> string" where
  "rgb_hex r g b = CHR ''#'' # hex_byte r @ hex_byte g @ hex_byte b"

definition is_hex_color :: "string \<Rightarrow> bool" where
  "is_hex_color s \<longleftrightarrow>
     length s = 7 \<and> hd s = CHR ''#'' \<and> list_all (\<lambda>c. c \<in> set ''0123456789abcdef'') (tl s)"


text \<open>
  The matrix that extraction builds for the chunk at column \<open>c\<close>, row \<open>r\<close> when every
  read is inside the array.
\<close>

definition color_matrix :: "ndarray \<Rightarrow> Point \<Rightarrow> nat \<Rightarrow> nat \<Rightarrow> chunk_matrix" where
  "color_matrix a cs c r =
     map (\<lambda>y. map (\<lambda>x. format_color (reversed
            (pixel_at a (y + r * point_y cs) (x + c * point_x cs)))) [0..<point_x cs])
       [0..<point_y cs]"

text \<open>The number of groups as the specification words it: \<open>ceil(N / G)\<close>.\<close>

definition ceil_div :: "nat \<Rightarrow> nat \<Rightarrow> nat" where
  "ceil_div n g = (if n mod g = 0 then n div g else n div g + 1)"

text \<open>
  The write-mode policy as the specification words it: append when one-file mode is active,
  or overwrite is requested and the index of the group is greater than zero; truncate
  otherwise.
\<close>

definition spec_write_mode :: "bool \<Rightarrow> bool \<Rightarrow> nat \<Rightarrow> open_mode" where
  "spec_write_mode one_file overwrite num =
     (if one_file \<or> (overwrite \<and> 0 < num) then Append else Truncate)"

text \<open>
  The file name as the specification words it: the stem of the image, the grid in square
  brackets, the index in parentheses when one-file mode is off, and the extension.
\<close>

definition spec_file_name :: "Image \<Rightarrow> nat \<Rightarrow> bool \<Rightarrow> string" where
  "spec_file_name img num one_file =
     stem (path img) @ ''['' @ str_int (chx img) @ '','' @ str_int (chy img) @ '']''
     @ (if one_file then [] else ''('' @ str_int num @ '')'') @ ''.txt''"

text \<open>The texts of a list of yielded groups, one after the other.\<close>

definition groups_text :: "(Chunk \<times> nat) list \<Rightarrow> bool \<Rightarrow> string" where
  "groups_text groups add_code =
     concat (map (\<lambda>grp. group_text (chunk_name (fst grp)) (chunk_data (fst grp)) add_code) groups)"

text \<open>
  A sequence rendered with the configured brackets in place of the square brackets: the
  opening string, the rendered elements separated by a comma and a space, the closing
  string.
\<close>

definition braced :: "Brackets \<Rightarrow> ('a \<Rightarrow> string) \<Rightarrow> 'a list \<Rightarrow> string" where
  "braced brackets r xs = br_open brackets @ join '', '' (map r xs) @ br_close brackets"

section \<open>Concrete inputs\<close>

text \<open>
  A decoder that knows one file, \<open>tile.png\<close>, of 32 by 32 pixels, the fixed chunk size of
  \<open>main\<close>, and the descriptor validation gives that file.
\<close>

definition example_array :: ndarray where
  "example_array = \<lparr>shape0 = 32, shape1 = 32, pixel_at = (\<lambda>r c. (word_of_nat r, word_of_nat c, 255))\<rparr>"

definition example_imread :: "string \<Rightarrow> ndarray option" where
  "example_imread p = (if p = ''tile.png'' then Some example_array else None)"

definition chunk16 :: Point where
  "chunk16 = \<lparr>point_x = 16, point_y = 16\<rparr>"

definition example_image :: Image where
  "example_image = \<lparr>path = ''tile.png'', chx = 2, chy = 2\<rparr>"

text \<open>A chunk map of five entries, one row of five chunks of a single pixel each.\<close>

definition example_dict :: "(nat \<times> nat, chunk_matrix) ordered_dict" where
  "example_dict =
     [((0, 0), [[''#000000'']]), ((1, 0), [[''#000001'']]), ((2, 0), [[''#000002'']]),
      ((3, 0), [[''#000003'']]), ((4, 0), [[''#000004'']])]"

text \<open>
  An output directory that already holds the file of group 1 of \<open>tile.png\<close> and the single
  file of one-file mode, and an image whose stem has a dot.
\<close>

definition example_world :: world where
  "example_world =
     \<lparr>files = [''tile[2,2](1).txt'' \<mapsto> ''old'', ''tile[2,2].txt'' \<mapsto> ''old''], opened = []\<rparr>"

definition dotted_image :: Image where
  "dotted_image = \<lparr>path = ''photo.v2.png'', chx = 2, chy = 2\<rparr>"

text \<open>A second file, \<open>small.png\<close>, 8 pixels high and 40 wide, beside \<open>tile.png\<close>.\<close>

definition small_array :: ndarray where
  "small_array = \<lparr>shape0 = 8, shape1 = 40, pixel_at = (\<lambda>r c. (0, 0, 0))\<rparr>"

definition two_files_imread :: "string \<Rightarrow> ndarray option" where
  "two_files_imread p =
     (if p = ''small.png'' then Some small_array
      else if p = ''tile.png'' then Some example_array else None)"

section \<open>Properties of validation and extraction\<close>

lemma sequence_map_Inr:
  "(\<And>x. x \<in> set xs \<Longrightarrow> f x = Inr (g x)) \<Longrightarrow> sequence (map f xs) = Inr (map g xs)"
  by (induction xs) auto

lemma od_setitem_fresh: "k \<notin> fst ` set d \<Longrightarrow> od_setitem d (k, v) = d @ [(k, v)]"
  by (induction d) auto

lemma foldl_od_setitem_distinct:
  "distinct (map fst (d @ items)) \<Longrightarrow> foldl od_setitem d items = d @ items"
proof (induction items arbitrary: d)
  case Nil
  then show ?case by simp
next
  case (Cons kv items)
  obtain k v where kv: "kv = (k, v)" by (cases kv)
  from Cons.prems have fresh: "k \<notin> fst ` set d" by (auto simp: kv)
  from Cons.prems have "distinct (map fst ((d @ [(k, v)]) @ items))" by (simp add: kv)
  then have "foldl od_setitem (d @ [(k, v)]) items = (d @ [(k, v)]) @ items" by (rule Cons.IH)
  then show ?case by (simp add: kv od_setitem_fresh [OF fresh])
qed

lemma OrderedDict_distinct: "distinct (map fst items) \<Longrightarrow> OrderedDict items = items"
  using foldl_od_setitem_distinct [of "[]" items] by (simp add: OrderedDict_def)

lemma chunk_coords_product:
  "chunk_coords img = map prod.swap (List.product [0..<chy img] [0..<chx img])"
  by (simp add: chunk_coords_def product_concat_map map_concat comp_def)

lemma distinct_chunk_coords: "distinct (chunk_coords img)"
  by (simp add: chunk_coords_product distinct_map distinct_product)

lemma length_chunk_coords: "length (chunk_coords img) = chy img * chx img"
  by (simp add: chunk_coords_product)

lemma nth_chunk_coords:
  "n < chy img * chx img \<Longrightarrow> chunk_coords img ! n = (n mod chx img, n div chx img)"
proof -
  assume n: "n < chy img * chx img"
  then have "0 < chx img" by (cases "chx img") auto
  have d: "n div chx img < chy img" using n by (simp add: less_mult_imp_div_less)
  have m: "n mod chx img < chx img" using \<open>0 < chx img\<close> by simp
  show ?thesis using n d m by (simp add: chunk_coords_product product_nth)
qed

lemma set_chunk_coords: "set (chunk_coords img) = {(c, r). c < chx img \<and> r < chy img}"
  by (auto simp: chunk_coords_def)

lemma chunk_in_bounds: "r < n div h \<Longrightarrow> y < h \<Longrightarrow> y + r * h < (n::nat)"
proof -
  assume r: "r < n div h" and y: "y < h"
  have "y + r * h < h + r * h" using y by simp
  also have "\<dots> = Suc r * h" by simp
  also have "\<dots> \<le> (n div h) * h" using r by (intro mult_le_mono1) simp
  also have "\<dots> \<le> n" by simp
  finally show ?thesis .
qed

lemma format_x_digit: "n < 16 \<Longrightarrow> format_x n = [hex_digit n]"
  by (subst format_x.simps) simp

lemma format_02x_byte: "n < 256 \<Longrightarrow> format_02x n = [hex_digit (n div 16), hex_digit (n mod 16)]"
proof (cases "n < 16")
  case True
  then show ?thesis by (simp add: format_02x_def format_x_digit hex_digit_def)
next
  case False
  assume "n < 256"
  then have d: "n div 16 < 16" by simp
  have "format_x n = format_x (n div 16) @ [hex_digit (n mod 16)]"
    using False by (subst format_x.simps) simp
  then show ?thesis by (simp add: format_02x_def format_x_digit [OF d])
qed

lemma format_02x_word: "format_02x (unat (v :: 8 word)) = hex_byte v"
proof -
  have "unat v < 2 ^ LENGTH(8)" by (rule unsigned_less)
  then have "unat v < 256" by simp
  then show ?thesis by (simp add: format_02x_byte hex_byte_def)
qed

lemma format_color_reversed: "format_color (reversed (b, g, r)) = rgb_hex r g b"
  by (simp add: rgb_hex_def format_02x_word)

lemma hex_digit_mem: "d < 16 \<Longrightarrow> hex_digit d \<in> set ''0123456789abcdef''"
  unfolding hex_digit_def by (rule nth_mem) simp

lemma is_hex_color_rgb_hex: "is_hex_color (rgb_hex r g b)"
proof -
  have "list_all (\<lambda>c. c \<in> set ''0123456789abcdef'') (hex_byte v)" for v :: "8 word"
  proof -
    have "unat v < 2 ^ LENGTH(8)" by (rule unsigned_less)
    then have "unat v div 16 < 16" by simp
    then show ?thesis
      by (simp add: hex_byte_def hex_digit_mem del: set_simps)
  qed
  then show ?thesis by (simp add: is_hex_color_def rgb_hex_def list_all_append hex_byte_def del: set_simps)
qed

lemma check_image_Inr:
  assumes "check_image imread chunk_size p = Inr img"
  shows "\<exists>a. imread p = Some a \<and> path img = p
          \<and> chx img = shape1 a div point_x chunk_size \<and> chy img = shape0 a div point_y chunk_size
          \<and> 0 < point_x chunk_size \<and> 0 < point_y chunk_size \<and> 0 < chx img \<and> 0 < chy img"
  using assms unfolding check_image_def
  by (auto simp: Let_def split: option.splits if_splits)

lemma image_loop_append:
  "image_loop imread cs ps acc = acc @ image_loop imread cs ps []"
proof (induction ps arbitrary: acc)
  case Nil
  then show ?case by simp
next
  case (Cons p ps)
  show ?case
  proof (cases "check_image imread cs p")
    case (Inl e)
    have "image_loop imread cs ps acc = acc @ image_loop imread cs ps []" by (rule Cons.IH)
    then show ?thesis by (simp only: image_loop.simps Inl sum.case)
  next
    case (Inr t)
    have "image_loop imread cs ps (acc @ [t]) = (acc @ [t]) @ image_loop imread cs ps []"
      by (rule Cons.IH)
    moreover have "image_loop imread cs ps [t] = [t] @ image_loop imread cs ps []"
      by (rule Cons.IH)
    ultimately show ?thesis by (simp add: Inr)
  qed
qed

lemma image_loop_Cons:
  "image_loop imread cs (p # ps) [] =
     (case check_image imread cs p of Inl _ \<Rightarrow> [] | Inr t \<Rightarrow> [t]) @ image_loop imread cs ps []"
  using image_loop_append [of imread cs ps "[t]" for t]
  by (simp split: sum.splits)

lemma image_loop_app:
  "image_loop imread cs (ps @ qs) [] = image_loop imread cs ps [] @ image_loop imread cs qs []"
  by (induction ps) (simp_all add: image_loop_Cons del: image_loop.simps(2))

lemma image_loop_mem:
  "img \<in> set (image_loop imread cs ps []) \<Longrightarrow> \<exists>p \<in> set ps. check_image imread cs p = Inr img"
  by (induction ps) (auto simp: image_loop_Cons simp del: image_loop.simps(2) split: sum.splits)

lemma validated:
  assumes "get_image_tuples imread image_paths chunk_size = Inr image_tuples"
    and "img \<in> set image_tuples"
  shows "\<exists>a. imread (path img) = Some a
          \<and> chx img = shape1 a div point_x chunk_size \<and> chy img = shape0 a div point_y chunk_size
          \<and> 0 < point_x chunk_size \<and> 0 < point_y chunk_size \<and> 0 < chx img \<and> 0 < chy img"
proof -
  from assms have "img \<in> set (image_loop imread chunk_size image_paths [])"
    by (auto simp: get_image_tuples_def split: if_splits)
  then obtain p where "check_image imread chunk_size p = Inr img"
    using image_loop_mem by blast
  from check_image_Inr [OF this] show ?thesis by auto
qed

lemma chunk_rows_in_bounds:
  assumes "c < shape1 a div point_x cs" and "r < shape0 a div point_y cs"
  shows "chunk_rows (Some a) cs c r = Inr (color_matrix a cs c r)"
  unfolding chunk_rows_def color_matrix_def
  by (intro sequence_map_Inr)
     (simp add: getitem_def chunk_in_bounds [OF assms(1)] chunk_in_bounds [OF assms(2)])

lemma get_chunks_dict_validated:
  assumes "imread (path img) = Some a"
    and "chx img = shape1 a div point_x cs" and "chy img = shape0 a div point_y cs"
  shows "get_chunks_dict imread img cs =
           Inr (map (\<lambda>(c, r). ((c, r), color_matrix a cs c r)) (chunk_coords img))"
proof -
  let ?f = "\<lambda>(c, r). map_sum id (Pair (c, r)) (chunk_rows (imread (path img)) cs c r)"
  let ?g = "\<lambda>(c, r). ((c, r), color_matrix a cs c r)"
  have "sequence (map ?f (chunk_coords img)) = Inr (map ?g (chunk_coords img))"
  proof (rule sequence_map_Inr)
    fix cr assume "cr \<in> set (chunk_coords img)"
    then obtain c r where cr: "cr = (c, r)" and "c < chx img" and "r < chy img"
      by (auto simp: set_chunk_coords)
    then show "?f cr = Inr (?g cr)"
      using assms by (simp add: chunk_rows_in_bounds)
  qed
  moreover have "map fst (map ?g (chunk_coords img)) = chunk_coords img"
    by (simp add: comp_def case_prod_unfold)
  then have "OrderedDict (map ?g (chunk_coords img)) = map ?g (chunk_coords img)"
    by (intro OrderedDict_distinct) (simp only: distinct_chunk_coords)
  ultimately show ?thesis by (simp add: get_chunks_dict_def)
qed

lemma sequence_Inr_D: "sequence rs = Inr vs \<Longrightarrow> rs = map Inr vs"
  by (induction rs arbitrary: vs) (auto split: sum.splits)

lemma get_chunks_dict_keys:
  assumes "get_chunks_dict imread img cs = Inr d"
  shows "map fst d = chunk_coords img"
proof -
  let ?f = "\<lambda>(c, r). map_sum id (Pair (c, r)) (chunk_rows (imread (path img)) cs c r)"
  from assms obtain items where s: "sequence (map ?f (chunk_coords img)) = Inr items"
    and d: "d = OrderedDict items"
    by (auto simp: get_chunks_dict_def split: sum.splits)
  from sequence_Inr_D [OF s] have eq: "map ?f (chunk_coords img) = map Inr items" .
  have len: "length items = length (chunk_coords img)"
    using arg_cong [OF eq, of length] by simp
  have "fst (items ! n) = chunk_coords img ! n" if n: "n < length items" for n
  proof -
    from eq have "map ?f (chunk_coords img) ! n = map Inr items ! n" by simp
    then have "?f (chunk_coords img ! n) = Inr (items ! n)" using n len by simp
    then show ?thesis
      by (cases "chunk_coords img ! n") (auto simp: map_sum_def split: sum.splits dest: sym)
  qed
  then have keys: "map fst items = chunk_coords img"
    using len by (simp add: list_eq_iff_nth_eq)
  then have "OrderedDict items = items"
    by (intro OrderedDict_distinct) (simp only: distinct_chunk_coords)
  with d keys show ?thesis by simp
qed

lemma example_validated:
  "get_image_tuples example_imread [''tile.png''] chunk16 = Inr [example_image]"
  by (simp add: get_image_tuples_def check_image_def example_imread_def example_array_def
      chunk16_def example_image_def array_size_def)

lemma example_coords: "chunk_coords example_image = [(0, 0), (1, 0), (0, 1), (1, 1)]"
  by code_simp

lemma example_chunks:
  "get_chunks_dict example_imread example_image chunk16 =
     Inr (map (\<lambda>(c, r). ((c, r), color_matrix example_array chunk16 c r))
            [(0, 0), (1, 0), (0, 1), (1, 1)])"
proof -
  have "get_chunks_dict example_imread example_image chunk16 =
     Inr (map (\<lambda>(c, r). ((c, r), color_matrix example_array chunk16 c r))
            (chunk_coords example_image))"
    by (rule get_chunks_dict_validated)
       (simp_all add: example_imread_def example_image_def example_array_def chunk16_def)
  then show ?thesis by (simp only: example_coords)
qed

lemma map_of_color_matrices:
  assumes "k \<in> set ks"
  shows "map_of (map (\<lambda>(c, r). ((c, r), f c r)) ks) k = Some (case k of (c, r) \<Rightarrow> f c r)"
  using assms by (induction ks) auto

lemma color_matrix_nth:
  assumes "y < point_y cs" and "x < point_x cs"
  shows "length (color_matrix a cs c r) = point_y cs"
    and "length (color_matrix a cs c r ! y) = point_x cs"
    and "color_matrix a cs c r ! y ! x =
           format_color (reversed (pixel_at a (y + r * point_y cs) (x + c * point_x cs)))"
  using assms by (simp_all add: color_matrix_def)

section \<open>Properties of grouping\<close>

lemma ceil_div_eq: "0 < g \<Longrightarrow> (n + g - 1) div g = ceil_div n g"
proof -
  assume g: "0 < g"
  have split: "n + g - 1 = (n mod g + g - 1) + (n div g) * g"
    using g by (simp add: algebra_simps)
  have "(n mod g + g - 1) div g = (if n mod g = 0 then 0 else 1)"
  proof (cases "n mod g = 0")
    case True
    then show ?thesis using g by simp
  next
    case False
    have lt: "n mod g - 1 < g" using g by (simp add: less_imp_diff_less)
    have "n mod g + g - 1 = (n mod g - 1) + g" using False by simp
    then have "(n mod g + g - 1) div g = ((n mod g - 1) + g) div g" by (rule arg_cong)
    also have "\<dots> = (n mod g - 1) div g + 1" using g by (intro div_add_self2) simp
    also have "\<dots> = 1" using lt by simp
    finally show ?thesis using False by simp
  qed
  then show ?thesis unfolding split ceil_div_def by (simp add: g)
qed

lemma range_step: "0 < s \<Longrightarrow> 0 < n \<Longrightarrow> (n + s - 1) div s = Suc ((n - s + s - 1) div s)"
proof -
  assume s: "0 < s" and n: "0 < (n::nat)"
  have "n + s - 1 = (n - 1) + s" using n by simp
  then have "(n + s - 1) div s = ((n - 1) + s) div s" by (rule arg_cong)
  also have "\<dots> = (n - 1) div s + 1" using s by (intro div_add_self2) simp
  finally have l: "(n + s - 1) div s = Suc ((n - 1) div s)" by simp
  show ?thesis
  proof (cases "s \<le> n")
    case True
    then have "n - s + s - 1 = n - 1" by simp
    with l show ?thesis by simp
  next
    case False
    then have "n - s + s - 1 = s - 1" and "n - 1 < s" by simp_all
    with l s show ?thesis by simp
  qed
qed

lemma py_range_map:
  "0 < step \<Longrightarrow>
     py_range i stop step = map (\<lambda>k. i + k * step) [0..<(stop - i + step - 1) div step]"
proof (induction i stop step rule: py_range.induct)
  case (1 i stop step)
  show ?case
  proof (cases "i < stop")
    case False
    then have "stop - i + step - 1 < step" using "1.prems" by simp
    then have "(stop - i + step - 1) div step = 0" by simp
    with False "1.prems" show ?thesis by (simp add: py_range.simps [of i])
  next
    case True
    let ?n = "(stop - (i + step) + step - 1) div step"
    have n: "(stop - i + step - 1) div step = Suc ?n"
      using range_step [of step "stop - i"] True "1.prems" by simp
    have "py_range i stop step = i # py_range (i + step) stop step"
      using True "1.prems" by (simp add: py_range.simps [of i])
    also have "py_range (i + step) stop step = map (\<lambda>k. i + step + k * step) [0..<?n]"
      using "1.IH" True "1.prems" by simp
    also have "\<dots> = map (\<lambda>k. i + k * step) (map Suc [0..<?n])"
      by (simp add: comp_def algebra_simps)
    also have "map Suc [0..<?n] = [Suc 0..<Suc ?n]" by (rule map_Suc_upt)
    finally have "py_range i stop step = map (\<lambda>k. i + k * step) (0 # [Suc 0..<Suc ?n])"
      by simp
    also have "0 # [Suc 0..<Suc ?n] = [0..<Suc ?n]" by (simp add: upt_rec [of 0] del: upt_Suc)
    finally show ?thesis by (simp only: n)
  qed
qed

lemma py_range_0:
  "0 < g \<Longrightarrow> py_range 0 n g = map (\<lambda>k. k * g) [0..<ceil_div n g]"
  using py_range_map [of g 0 n] ceil_div_eq [of g n] by simp

lemma output_generator_Inr:
  "0 < g \<Longrightarrow> output_generator d g brackets =
     Inr (map (\<lambda>k. group_at d g brackets (k * g)) [0..<ceil_div (length d) g])"
  by (simp add: output_generator_def py_range_0 comp_def)

lemma map_snd_groups:
  "0 < g \<Longrightarrow> map snd (map (\<lambda>k. group_at d g brackets (k * g)) [0..<n]) = [0..<n]"
  by (simp add: group_at_def comp_def map_idI)

lemma ceil_div_bound: "0 < g \<Longrightarrow> k + 1 < ceil_div n g \<Longrightarrow> (k + 1) * g < n"
proof -
  assume g: "0 < g" and k: "k + 1 < ceil_div n g"
  then have "k + 1 < n div g \<or> (k + 1 = n div g \<and> n mod g \<noteq> 0)"
    by (auto simp: ceil_div_def split: if_splits)
  then show ?thesis
  proof
    assume "k + 1 < n div g"
    then have "(k + 1) * g < (n div g) * g" using g by (rule mult_less_mono1)
    also have "\<dots> \<le> n" by simp
    finally show ?thesis .
  next
    assume a: "k + 1 = n div g \<and> n mod g \<noteq> 0"
    from a have "0 < n mod g" by simp
    moreover have "(n div g) * g + n mod g = n" by simp
    ultimately have "(n div g) * g < n" by linarith
    then show ?thesis using a by simp
  qed
qed

lemma last_group_size:
  assumes g: "0 < g" and n: "0 < n" and k: "k + 1 = ceil_div n g"
  shows "min g (n - k * g) = (if n mod g = 0 then g else n mod g)"
proof (cases "n mod g = 0")
  case True
  with k have "n div g = k + 1" by (simp add: ceil_div_def)
  moreover have "n = (n div g) * g" using True by (simp add: mod_eq_0_iff_dvd)
  ultimately have "n = (k + 1) * g" by simp
  then show ?thesis using True by simp
next
  case False
  with k have "n div g = k" by (simp add: ceil_div_def)
  moreover have "n = (n div g) * g + n mod g" by simp
  ultimately have "n - k * g = n mod g" by simp
  moreover have "n mod g < g" using g by simp
  ultimately show ?thesis using False by simp
qed

lemma length_py_slice: "length (py_slice xs i (i + g)) = min g (length xs - i)"
  by (simp add: py_slice_def min.commute)

lemma ceil_div_pos: "0 < g \<Longrightarrow> 0 < n \<Longrightarrow> 0 < ceil_div n g"
proof -
  assume g: "0 < g" and n: "0 < n"
  show ?thesis
  proof (cases "n mod g = 0")
    case True
    then have "n = (n div g) * g" by (simp add: mod_eq_0_iff_dvd)
    with n have "0 < n div g" by (cases "n div g") simp_all
    with True show ?thesis by (simp add: ceil_div_def)
  next
    case False
    then show ?thesis by (simp add: ceil_div_def)
  qed
qed

section \<open>Properties of the writer\<close>

lemma opened_store_output:
  "opened (store_output w header data img num one_file overwrite add_code) =
     opened w
     @ (if overwrite \<and> num = 0 then [(output_file_name img num one_file, Truncate)] else [])
     @ [(output_file_name img num one_file,
         write_mode (files w (output_file_name img num one_file) \<noteq> None) overwrite one_file)]"
  by (simp add: store_output_def open_write_def Let_def)

lemma files_store_output:
  "files (store_output w header data img num one_file overwrite add_code) =
     (files w)(output_file_name img num one_file \<mapsto>
        (if write_mode (files w (output_file_name img num one_file) \<noteq> None) overwrite one_file
              = Truncate \<or> (overwrite \<and> num = 0)
         then group_text header data add_code
         else (case files w (output_file_name img num one_file) of
                 None \<Rightarrow> group_text header data add_code
               | Some old \<Rightarrow> old @ group_text header data add_code)))"
  by (auto simp: store_output_def open_write_def Let_def split: open_mode.splits option.splits)

lemma example_names:
  "output_file_name example_image 1 False = ''tile[2,2](1).txt''"
  "output_file_name example_image (Suc 0) False = ''tile[2,2](1).txt''"
  "output_file_name example_image 0 True = ''tile[2,2].txt''"
  by code_simp+

lemma replace_char: "replace s old [new] = map (\<lambda>c. if c = old then new else c) s"
  by (induction s) (simp_all add: replace_def)

lemma replace_empty: "replace s old [] = filter (\<lambda>c. c \<noteq> old) s"
  by (induction s) (simp_all add: replace_def)

lemma back_code_tokens:
  "replace (replace (replace header (CHR ''('') [CHR 0x22]) (CHR '')'') [CHR 0x22]) (CHR '' '') [] =
     filter (\<lambda>c. c \<noteq> CHR '' '')
       (map (\<lambda>c. if c = CHR ''('' \<or> c = CHR '')'' then CHR 0x22 else c) header)"
proof -
  have "map (\<lambda>c. if c = CHR '')'' then CHR 0x22 else c)
          (map (\<lambda>c. if c = CHR ''('' then CHR 0x22 else c) header) =
        map (\<lambda>c. if c = CHR ''('' \<or> c = CHR '')'' then CHR 0x22 else c) header"
    by simp
  then show ?thesis by (simp only: replace_char replace_empty)
qed

lemma output_file_name_one_file: "output_file_name img num True = spec_file_name img num True"
  by (simp add: output_file_name_def spec_file_name_def)

lemma rfind_absent: "c \<notin> set s \<Longrightarrow> rfind s c = - 1"
  by (induction s) (auto simp: Let_def)

lemma dec_digit_mem: "d < 10 \<Longrightarrow> dec_digit d \<in> set ''0123456789''"
  unfolding dec_digit_def by (rule nth_mem) simp

lemma dec_digit_not_dot: "d < 10 \<Longrightarrow> dec_digit d \<noteq> CHR ''.''"
  using dec_digit_mem [of d] by auto

lemma str_int_no_dot: "CHR ''.'' \<notin> set (str_int n)"
proof (induction n rule: str_int.induct)
  case (1 n)
  show ?case
  proof (cases "n < 10")
    case True
    then show ?thesis using dec_digit_not_dot [of n] by (simp add: str_int.simps [of n])
  next
    case False
    then show ?thesis using "1.IH" dec_digit_not_dot [of "n mod 10"]
      by (simp add: str_int.simps [of n])
  qed
qed

lemma stem_no_dot: "CHR ''.'' \<notin> set name \<Longrightarrow> stem name = name"
  by (simp add: stem_def rfind_absent)

lemma output_file_name_no_dot:
  assumes "CHR ''.'' \<notin> set (stem (path img))"
  shows "output_file_name img num one_file = spec_file_name img num one_file"
proof -
  let ?n = "stem (path img) @ ''['' @ str_int (chx img) @ '','' @ str_int (chy img) @ '']''"
  have "CHR ''.'' \<notin> set ?n" using assms by (simp add: str_int_no_dot)
  then have "stem ?n = ?n" by (rule stem_no_dot)
  then show ?thesis by (simp add: output_file_name_def spec_file_name_def Let_def)
qed

lemma one_file_name: "output_file_name img num True = output_file_name img 0 True"
  by (simp add: output_file_name_def)

lemma snd_group_at: "0 < g \<Longrightarrow> snd (group_at d g brackets (k * g)) = k"
  by (simp add: group_at_def)

lemma write_groups_Cons:
  "write_groups w img (grp # groups) one_file overwrite add_code =
     write_groups
       (store_output w (chunk_name (fst grp)) (chunk_data (fst grp)) img (snd grp)
          one_file overwrite add_code)
       img groups one_file overwrite add_code"
  by (simp add: write_groups_def case_prod_unfold)

lemma write_groups_Nil: "write_groups w img [] one_file overwrite add_code = w"
  by (simp add: write_groups_def)

lemma write_groups_append_only:
  assumes "files w (output_file_name img 0 True) = Some cur"
    and "\<forall>grp \<in> set groups. 0 < snd grp"
  shows "files (write_groups w img groups True True add_code) (output_file_name img 0 True) =
           Some (cur @ groups_text groups add_code)
       \<and> opened (write_groups w img groups True True add_code) =
           opened w @ replicate (length groups) (output_file_name img 0 True, Append)"
  using assms
proof (induction groups arbitrary: w cur)
  case Nil
  then show ?case by (simp add: write_groups_Nil groups_text_def)
next
  case (Cons grp groups)
  let ?name = "output_file_name img 0 True"
  let ?txt = "group_text (chunk_name (fst grp)) (chunk_data (fst grp)) add_code"
  let ?w = "store_output w (chunk_name (fst grp)) (chunk_data (fst grp)) img (snd grp)
              True True add_code"
  from Cons.prems have pos: "0 < snd grp" and rest: "\<forall>grp \<in> set groups. 0 < snd grp"
    by simp_all
  have f: "files ?w ?name = Some (cur @ ?txt)"
    using Cons.prems(1) pos
    by (simp add: files_store_output write_mode_def one_file_name [of img "snd grp"])
  have o: "opened ?w = opened w @ [(?name, Append)]"
    using Cons.prems(1) pos
    by (simp add: opened_store_output write_mode_def one_file_name [of img "snd grp"])
  from Cons.IH [OF f rest] f o show ?case
    by (simp add: write_groups_Cons groups_text_def replicate_append_same [symmetric]
        del: replicate_append_same)
qed

section \<open>Properties of the rendering of a group\<close>

lemma replace_append: "replace (a @ b) old new = replace a old new @ replace b old new"
  by (simp add: replace_def)

lemma replace_absent: "old \<notin> set s \<Longrightarrow> replace s old new = s"
  by (induction s) (auto simp: replace_def)

lemma replace_join:
  "replace (join sep xs) old new = join (replace sep old new) (map (\<lambda>x. replace x old new) xs)"
  by (induction sep xs rule: join.induct) (simp_all add: replace_append, simp add: replace_def)

lemma set_join: "set (join sep xs) \<subseteq> set sep \<union> \<Union> (set ` set xs)"
  by (induction sep xs rule: join.induct) auto

lemma str_int_subset:
  assumes "\<And>d. d < 10 \<Longrightarrow> dec_digit d \<in> D"
  shows "set (str_int n) \<subseteq> D"
proof (induction n rule: str_int.induct)
  case (1 n)
  show ?case
  proof (cases "n < 10")
    case True
    then show ?thesis using assms [of n] by (simp add: str_int.simps [of n])
  next
    case False
    then show ?thesis using "1.IH" assms [of "n mod 10"] by (simp add: str_int.simps [of n])
  qed
qed

lemma str_int_digits: "set (str_int n) \<subseteq> set ''0123456789''"
  by (rule str_int_subset) (rule dec_digit_mem)

lemma str_int_no_bracket:
  "CHR ''['' \<notin> set (str_int n)" "CHR '']'' \<notin> set (str_int n)" "CHR ''('' \<notin> set (str_int n)"
  using str_int_digits [of n] by auto

lemma repr_coord_no_bracket:
  "CHR ''['' \<notin> set (repr_coord k)" "CHR '']'' \<notin> set (repr_coord k)"
  by (cases k; simp add: str_int_no_bracket)+

lemma join_coords_no_bracket:
  "CHR ''['' \<notin> set (join '', '' (map repr_coord ks))"
  "CHR '']'' \<notin> set (join '', '' (map repr_coord ks))"
  using set_join [of "'', ''" "map repr_coord ks"] repr_coord_no_bracket by auto

lemma header_rendering:
  "replace (replace (str_list repr_coord ks) (CHR ''['') []) (CHR '']'') [] =
     join '', '' (map repr_coord ks)"
proof -
  have b: "replace ''['' (CHR ''['') [] = []" "replace '']'' (CHR ''['') [] = '']''"
    "replace '']'' (CHR '']'') [] = []"
    by (simp_all add: replace_def)
  have "replace (str_list repr_coord ks) (CHR ''['') [] = join '', '' (map repr_coord ks) @ '']''"
    by (simp only: str_list_def replace_append replace_absent join_coords_no_bracket b
        append_Nil not_False_eq_True)
  then show ?thesis
    by (simp only: replace_append replace_absent join_coords_no_bracket b append_Nil2
        not_False_eq_True)
qed

lemma count_join:
  "\<forall>c \<in> set sep. \<not> P c \<Longrightarrow>
     length (filter P (join sep xs)) = sum_list (map (\<lambda>x. length (filter P x)) xs)"
proof (induction sep xs rule: join.induct)
  case (3 sep s t ts)
  then have "filter P sep = []" by (simp add: filter_empty_conv)
  with 3 show ?case by simp
qed simp_all

lemma count_paren_coord: "length (filter (\<lambda>c. c = CHR ''('') (repr_coord k)) = 1"
proof (cases k)
  case (Pair a b)
  have "filter (\<lambda>c. c = CHR ''('') (str_int n) = []" for n
    using str_int_no_bracket(3) [of n] by (auto simp: filter_empty_conv)
  then show ?thesis by (simp add: Pair)
qed

lemma count_paren_header:
  "length (filter (\<lambda>c. c = CHR ''('') (join '', '' (map repr_coord ks))) = length ks"
proof -
  have "length (filter (\<lambda>c. c = CHR ''('') (join '', '' (map repr_coord ks))) =
          sum_list (map (\<lambda>x. length (filter (\<lambda>c. c = CHR ''('') x)) (map repr_coord ks))"
    by (rule count_join) auto
  also have "\<dots> = sum_list (map (\<lambda>k. 1) ks)" by (simp add: comp_def count_paren_coord)
  also have "\<dots> = length ks" by (induction ks) simp_all
  finally show ?thesis .
qed

lemma str_list_braced: "str_list r xs = braced \<lparr>br_open = ''['', br_close = '']''\<rparr> r xs"
  by (simp add: str_list_def braced_def)

lemma replace_braced:
  "c \<notin> set '', '' \<Longrightarrow>
     replace (braced b r xs) c new =
       braced \<lparr>br_open = replace (br_open b) c new, br_close = replace (br_close b) c new\<rparr>
         (\<lambda>x. replace (r x) c new) xs"
  by (simp add: braced_def replace_append replace_join replace_absent comp_def)

lemma braced_cong: "(\<And>x. x \<in> set xs \<Longrightarrow> f x = h x) \<Longrightarrow> braced b f xs = braced b h xs"
  by (simp add: braced_def cong: map_cong)

lemma data_rendering:
  assumes o: "CHR '']'' \<notin> set (br_open brackets)"
    and s: "\<forall>m \<in> set vs. \<forall>row \<in> set m. \<forall>s \<in> set row. CHR ''['' \<notin> set s \<and> CHR '']'' \<notin> set s"
  shows "replace (replace (str_list (str_list (str_list repr_str)) vs)
            (CHR ''['') (br_open brackets)) (CHR '']'') (br_close brackets) =
         braced brackets (braced brackets (braced brackets repr_str)) vs"
proof -
  let ?sub = "\<lambda>t. replace (replace t (CHR ''['') (br_open brackets)) (CHR '']'') (br_close brackets)"
  have c: "CHR ''['' \<notin> set '', ''" "CHR '']'' \<notin> set '', ''" by simp_all
  have b: "replace ''['' (CHR ''['') (br_open brackets) = br_open brackets"
    "replace '']'' (CHR ''['') (br_open brackets) = '']''"
    "replace '']'' (CHR '']'') (br_close brackets) = br_close brackets"
    by (simp_all add: replace_def)
  have b2: "replace (br_open brackets) (CHR '']'') (br_close brackets) = br_open brackets"
    using o by (rule replace_absent)
  have r: "\<lparr>br_open = br_open brackets, br_close = br_close brackets\<rparr> = brackets" by simp
  have "?sub (str_list (str_list (str_list repr_str)) vs) =
          braced brackets (\<lambda>m. braced brackets (\<lambda>row. braced brackets (\<lambda>s. ?sub (repr_str s)) row) m) vs"
    by (simp only: str_list_braced replace_braced [OF c(1)] replace_braced [OF c(2)]
        Brackets.simps b b2 r)
  also have "\<dots> = braced brackets (\<lambda>m. braced brackets (\<lambda>row. braced brackets repr_str row) m) vs"
  proof (intro braced_cong)
    fix m row t assume "m \<in> set vs" "row \<in> set m" "t \<in> set row"
    with s have "CHR ''['' \<notin> set t" "CHR '']'' \<notin> set t" by auto
    then have "CHR ''['' \<notin> set (repr_str t)" "CHR '']'' \<notin> set (repr_str t)"
      by (simp_all add: repr_str_def)
    then show "?sub (repr_str t) = repr_str t" by (simp add: replace_absent)
  qed
  finally show ?thesis .
qed

lemma set_py_slice: "set (py_slice xs i j) \<subseteq> set xs"
  unfolding py_slice_def using set_take_subset set_drop_subset by fast

lemma chunk_name_group_at:
  "chunk_name (fst (group_at d g brackets i)) =
     join '', '' (map repr_coord (py_slice (map fst d) i (i + g)))"
  by (simp add: group_at_def header_rendering)

lemma chunk_data_group_at:
  assumes "CHR '']'' \<notin> set (br_open brackets)"
    and "\<forall>m \<in> set (map snd d). \<forall>row \<in> set m. \<forall>s \<in> set row.
           CHR ''['' \<notin> set s \<and> CHR '']'' \<notin> set s"
  shows "chunk_data (fst (group_at d g brackets i)) =
           braced brackets (braced brackets (braced brackets repr_str))
             (py_slice (map snd d) i (i + g))"
proof -
  have "\<forall>m \<in> set (py_slice (map snd d) i (i + g)). \<forall>row \<in> set m. \<forall>s \<in> set row.
          CHR ''['' \<notin> set s \<and> CHR '']'' \<notin> set s"
    using assms(2) set_py_slice [of "map snd d" i "i + g"] by blast
  from data_rendering [OF assms(1) this] show ?thesis by (simp add: group_at_def)
qed

section \<open>The claims\<close>

text \<open>
  C1.  An image that passes validation, of pixel height \<open>shape0\<close> and width \<open>shape1\<close>,
  gets a descriptor with \<open>chx = shape1 div point_x\<close> and \<open>chy = shape0 div point_y\<close>,
  extraction succeeds on it, and the chunk map has exactly
  \<open>(shape0 div point_y) * (shape1 div point_x)\<close> entries.
\<close>

theorem C1_chunk_grid:
  assumes "get_image_tuples imread image_paths chunk_size = Inr image_tuples"
    and "img \<in> set image_tuples"
  shows "\<exists>a d. imread (path img) = Some a
           \<and> chx img = shape1 a div point_x chunk_size
           \<and> chy img = shape0 a div point_y chunk_size
           \<and> get_chunks_dict imread img chunk_size = Inr d
           \<and> length d = (shape0 a div point_y chunk_size) * (shape1 a div point_x chunk_size)"
proof -
  from validated [OF assms] obtain a where a: "imread (path img) = Some a"
    and cx: "chx img = shape1 a div point_x chunk_size"
    and cy: "chy img = shape0 a div point_y chunk_size"
    by blast
  have "length (map (\<lambda>(c, r). ((c, r), color_matrix a chunk_size c r)) (chunk_coords img))
          = (shape0 a div point_y chunk_size) * (shape1 a div point_x chunk_size)"
    by (simp add: length_chunk_coords cx cy)
  with a cx cy get_chunks_dict_validated [of imread img a chunk_size, OF a cx cy]
  show ?thesis by blast
qed

theorem C1_chunk_grid_witness:
  "get_image_tuples example_imread [''tile.png''] chunk16 = Inr [example_image]
   \<and> (\<exists>d. get_chunks_dict example_imread example_image chunk16 = Inr d \<and> length d = 4)"
proof -
  have m: "example_image \<in> set [example_image]" by simp
  from C1_chunk_grid [OF example_validated m]
  obtain a d where a: "example_imread (path example_image) = Some a"
    and d: "get_chunks_dict example_imread example_image chunk16 = Inr d"
    and len: "length d = (shape0 a div point_y chunk16) * (shape1 a div point_x chunk16)"
    by blast
  from a have "a = example_array" by (simp add: example_imread_def example_image_def)
  with len have "length d = 4" by (simp add: example_array_def chunk16_def)
  with d example_validated show ?thesis by blast
qed

text \<open>
  C2.  For a validated image, a chunk coordinate \<open>(c, r)\<close> of its grid and a position
  \<open>(y, x)\<close> inside the chunk, the chunk map holds under \<open>(c, r)\<close> a matrix whose entry
  \<open>y\<close>, \<open>x\<close> matches \<open>#[0-9a-f]{6}\<close> and is the red-green-blue encoding of the source
  pixel at row \<open>r * point_y + y\<close>, column \<open>c * point_x + x\<close>, whose channels the buffer
  stores as blue, green, red.
\<close>

theorem C2_color_strings:
  assumes "get_image_tuples imread image_paths chunk_size = Inr image_tuples"
    and "img \<in> set image_tuples"
    and "c < chx img" and "r < chy img"
    and "y < point_y chunk_size" and "x < point_x chunk_size"
  shows "\<exists>a d m. imread (path img) = Some a
           \<and> get_chunks_dict imread img chunk_size = Inr d
           \<and> map_of d (c, r) = Some m
           \<and> length m = point_y chunk_size \<and> length (m ! y) = point_x chunk_size
           \<and> is_hex_color (m ! y ! x)
           \<and> m ! y ! x =
               (case pixel_at a (r * point_y chunk_size + y) (c * point_x chunk_size + x) of
                  (blue, green, red) \<Rightarrow> rgb_hex red green blue)"
proof -
  from validated [OF assms(1,2)] obtain a where a: "imread (path img) = Some a"
    and cx: "chx img = shape1 a div point_x chunk_size"
    and cy: "chy img = shape0 a div point_y chunk_size"
    by blast
  let ?m = "color_matrix a chunk_size c r"
  obtain blue green red
    where p: "pixel_at a (r * point_y chunk_size + y) (c * point_x chunk_size + x) = (blue, green, red)"
    by (cases "pixel_at a (r * point_y chunk_size + y) (c * point_x chunk_size + x)")
  have d: "get_chunks_dict imread img chunk_size =
             Inr (map (\<lambda>(c, r). ((c, r), color_matrix a chunk_size c r)) (chunk_coords img))"
    using a cx cy by (rule get_chunks_dict_validated)
  have "(c, r) \<in> set (chunk_coords img)" using assms(3,4) by (simp add: set_chunk_coords)
  then have m: "map_of (map (\<lambda>(c, r). ((c, r), color_matrix a chunk_size c r)) (chunk_coords img)) (c, r)
                  = Some ?m"
    by (simp add: map_of_color_matrices)
  have "?m ! y ! x = format_color (reversed (pixel_at a (y + r * point_y chunk_size) (x + c * point_x chunk_size)))"
    using assms(5,6) by (rule color_matrix_nth)
  moreover have "pixel_at a (y + r * point_y chunk_size) (x + c * point_x chunk_size) = (blue, green, red)"
    using p by (simp only: add.commute)
  ultimately have v: "?m ! y ! x = rgb_hex red green blue"
    by (simp only: format_color_reversed)
  then have h: "is_hex_color (?m ! y ! x)" by (simp only: is_hex_color_rgb_hex)
  have l1: "length ?m = point_y chunk_size" and l2: "length (?m ! y) = point_x chunk_size"
    using assms(5,6) by (rule color_matrix_nth)+
  from a d m l1 l2 h v p show ?thesis by (intro exI [of _ a] exI [of _ ?m] exI) simp
qed

theorem C2_color_strings_witness:
  "\<exists>d m. get_chunks_dict example_imread example_image chunk16 = Inr d
     \<and> map_of d (1, 0) = Some m \<and> is_hex_color (m ! 3 ! 5) \<and> m ! 3 ! 5 = ''#ff1503''"
proof -
  have mem: "example_image \<in> set [example_image]" by simp
  have c: "1 < chx example_image" and r: "0 < chy example_image"
    by (simp_all add: example_image_def)
  have y: "3 < point_y chunk16" and x: "5 < point_x chunk16"
    by (simp_all add: chunk16_def)
  from C2_color_strings [OF example_validated mem c r y x]
  obtain a d m where a: "example_imread (path example_image) = Some a"
    and d: "get_chunks_dict example_imread example_image chunk16 = Inr d"
    and m: "map_of d (1, 0) = Some m"
    and h: "is_hex_color (m ! 3 ! 5)"
    and v: "m ! 3 ! 5 = (case pixel_at a (0 * point_y chunk16 + 3) (1 * point_x chunk16 + 5) of
                           (blue, green, red) \<Rightarrow> rgb_hex red green blue)"
    by blast
  from a have "a = example_array" by (simp add: example_imread_def example_image_def)
  with v have "m ! 3 ! 5 = ''#ff1503''"
    by (simp add: example_array_def chunk16_def rgb_hex_def hex_byte_def hex_digit_def)
  with d m h show ?thesis by blast
qed

text \<open>
  C3.  The keys of a chunk map that extraction returns stand in row-major order: of two
  coordinates, the one at the smaller index has the smaller row, or the same row and the
  smaller column.
\<close>

theorem C3_row_major:
  assumes "get_chunks_dict imread img chunk_size = Inr d"
    and "i < j" and "j < length d"
    and "fst (d ! i) = (c1, r1)" and "fst (d ! j) = (c2, r2)"
  shows "r1 < r2 \<or> (r1 = r2 \<and> c1 < c2)"
proof -
  from get_chunks_dict_keys [OF assms(1)] have keys: "map fst d = chunk_coords img" .
  then have len: "length d = chy img * chx img"
    using length_chunk_coords [of img] length_map [of fst d] by simp
  have "fst (d ! n) = (n mod chx img, n div chx img)" if "n < length d" for n
  proof -
    have "fst (d ! n) = map fst d ! n" using that by simp
    then show ?thesis using that len by (simp add: keys nth_chunk_coords)
  qed
  with assms have i: "c1 = i mod chx img" "r1 = i div chx img"
    and j: "c2 = j mod chx img" "r2 = j div chx img"
    by auto
  have le: "r1 \<le> r2" using \<open>i < j\<close> by (simp add: i j div_le_mono)
  show ?thesis
  proof (cases "r1 = r2")
    case False
    with le show ?thesis by simp
  next
    case True
    have "i = chx img * r1 + c1" "j = chx img * r2 + c2" by (simp_all add: i j)
    with \<open>i < j\<close> True have "c1 < c2" by simp
    with True show ?thesis by simp
  qed
qed

theorem C3_row_major_witness:
  "\<exists>d. get_chunks_dict example_imread example_image chunk16 = Inr d
     \<and> fst (d ! 1) = (1, 0) \<and> fst (d ! 2) = (0, 1)
     \<and> ((0::nat) < 1 \<or> ((0::nat) = 1 \<and> (1::nat) < 0))"
proof -
  let ?d = "map (\<lambda>(c, r). ((c, r), color_matrix example_array chunk16 c r))
              [(0, 0), (1, 0), (0, 1), (1::nat, 1::nat)]"
  have i: "fst (?d ! 1) = (1, 0)" and j: "fst (?d ! 2) = (0, 1)" by simp_all
  have "(1::nat) < 2" and "2 < length ?d" by simp_all
  from C3_row_major [OF example_chunks this i j] example_chunks i j
  show ?thesis by blast
qed

text \<open>
  C4.  For a chunk map of \<open>N \<ge> 1\<close> entries and a group size \<open>G\<close> from 1 to 10 the generator
  yields exactly \<open>ceil(N / G)\<close> pairs, and the indices yielded are
  \<open>0, 1, ..., ceil(N / G) - 1\<close> in this order.  The pair at position \<open>k\<close> carries the chunks
  at positions \<open>k * G\<close> up to \<open>k * G + G\<close> of the map: they are \<open>G\<close> chunks, except for the
  last pair, where they are \<open>N mod G\<close> chunks, or \<open>G\<close> when \<open>N mod G = 0\<close>.  The header
  yielded is the list of exactly these coordinates, separated by a comma and a space, so it
  holds one opening parenthesis for each chunk of the group; and, when the opening bracket
  string has no \<open>]\<close> and no colour string has a square bracket, the data yielded is the
  rendering of exactly these matrices in the configured brackets.
\<close>

theorem C4_groups:
  assumes "1 \<le> length d" and "1 \<le> g" and "g \<le> 10"
  shows "\<exists>gs. output_generator d g brackets = Inr gs
           \<and> length gs = ceil_div (length d) g
           \<and> map snd gs = [0..<ceil_div (length d) g]
           \<and> (\<forall>k<length gs.
                 gs ! k = group_at d g brackets (k * g)
                 \<and> length (py_slice (map fst d) (k * g) (k * g + g)) =
                     (if k + 1 < length gs then g
                      else if length d mod g = 0 then g else length d mod g)
                 \<and> length (py_slice (map snd d) (k * g) (k * g + g)) =
                     (if k + 1 < length gs then g
                      else if length d mod g = 0 then g else length d mod g)
                 \<and> chunk_name (fst (gs ! k)) =
                     join '', '' (map repr_coord (py_slice (map fst d) (k * g) (k * g + g)))
                 \<and> length (filter (\<lambda>c. c = CHR ''('') (chunk_name (fst (gs ! k)))) =
                     (if k + 1 < length gs then g
                      else if length d mod g = 0 then g else length d mod g)
                 \<and> (CHR '']'' \<notin> set (br_open brackets)
                      \<and> (\<forall>m \<in> set (map snd d). \<forall>row \<in> set m. \<forall>s \<in> set row.
                            CHR ''['' \<notin> set s \<and> CHR '']'' \<notin> set s) \<longrightarrow>
                    chunk_data (fst (gs ! k)) =
                      braced brackets (braced brackets (braced brackets repr_str))
                        (py_slice (map snd d) (k * g) (k * g + g))))"
proof -
  let ?n = "ceil_div (length d) g"
  let ?gs = "map (\<lambda>k. group_at d g brackets (k * g)) [0..<?n]"
  let ?P = "\<lambda>gs k.
      gs ! k = group_at d g brackets (k * g)
      \<and> length (py_slice (map fst d) (k * g) (k * g + g)) =
          (if k + 1 < length gs then g else if length d mod g = 0 then g else length d mod g)
      \<and> length (py_slice (map snd d) (k * g) (k * g + g)) =
          (if k + 1 < length gs then g else if length d mod g = 0 then g else length d mod g)
      \<and> chunk_name (fst (gs ! k)) =
          join '', '' (map repr_coord (py_slice (map fst d) (k * g) (k * g + g)))
      \<and> length (filter (\<lambda>c. c = CHR ''('') (chunk_name (fst (gs ! k)))) =
          (if k + 1 < length gs then g else if length d mod g = 0 then g else length d mod g)
      \<and> (CHR '']'' \<notin> set (br_open brackets)
           \<and> (\<forall>m \<in> set (map snd d). \<forall>row \<in> set m. \<forall>s \<in> set row.
                 CHR ''['' \<notin> set s \<and> CHR '']'' \<notin> set s) \<longrightarrow>
         chunk_data (fst (gs ! k)) =
           braced brackets (braced brackets (braced brackets repr_str))
             (py_slice (map snd d) (k * g) (k * g + g)))"
  from assms have g: "0 < g" and n: "0 < length d" by linarith+
  have out: "output_generator d g brackets = Inr ?gs" using g by (rule output_generator_Inr)
  have len: "length ?gs = ?n" by simp
  have idx: "map snd ?gs = [0..<?n]" using g by (rule map_snd_groups)
  have size: "min g (length d - k * g) =
                (if k + 1 < ?n then g else if length d mod g = 0 then g else length d mod g)"
    if k: "k < ?n" for k
  proof (cases "k + 1 < ?n")
    case True
    from ceil_div_bound [OF g True] have "g \<le> length d - k * g" by simp
    with True show ?thesis by simp
  next
    case False
    with k have "k + 1 = ?n" by simp
    from last_group_size [OF g n this] False show ?thesis by simp
  qed
  have "\<forall>k<length ?gs. ?P ?gs k"
  proof (intro allI impI)
    fix k assume "k < length ?gs"
    then have k: "k < ?n" by simp
    then have nth: "?gs ! k = group_at d g brackets (k * g)" by simp
    have l1: "length (py_slice (map fst d) (k * g) (k * g + g)) =
          (if k + 1 < length ?gs then g else if length d mod g = 0 then g else length d mod g)"
      using size [OF k] by (simp add: length_py_slice)
    have l2: "length (py_slice (map snd d) (k * g) (k * g + g)) =
          (if k + 1 < length ?gs then g else if length d mod g = 0 then g else length d mod g)"
      using size [OF k] by (simp add: length_py_slice)
    have h: "chunk_name (fst (?gs ! k)) =
          join '', '' (map repr_coord (py_slice (map fst d) (k * g) (k * g + g)))"
      by (simp only: nth chunk_name_group_at)
    have c: "length (filter (\<lambda>c. c = CHR ''('') (chunk_name (fst (?gs ! k)))) =
          (if k + 1 < length ?gs then g else if length d mod g = 0 then g else length d mod g)"
      by (simp only: h count_paren_header l1)
    have dt: "chunk_data (fst (?gs ! k)) =
           braced brackets (braced brackets (braced brackets repr_str))
             (py_slice (map snd d) (k * g) (k * g + g))"
      if "CHR '']'' \<notin> set (br_open brackets)
           \<and> (\<forall>m \<in> set (map snd d). \<forall>row \<in> set m. \<forall>s \<in> set row.
                 CHR ''['' \<notin> set s \<and> CHR '']'' \<notin> set s)"
    proof -
      from that have a: "CHR '']'' \<notin> set (br_open brackets)"
        and b: "\<forall>m \<in> set (map snd d). \<forall>row \<in> set m. \<forall>s \<in> set row.
                 CHR ''['' \<notin> set s \<and> CHR '']'' \<notin> set s"
        by blast+
      from chunk_data_group_at [OF a b] show ?thesis by (simp only: nth)
    qed
    from nth l1 l2 h c dt show "?P ?gs k" by blast
  qed
  with out len idx show ?thesis by blast
qed


theorem C4_groups_witness:
  "\<exists>gs. output_generator example_dict 2 default_brackets = Inr gs
     \<and> length gs = 3 \<and> map snd gs = [0, 1, 2]
     \<and> gs ! 2 = group_at example_dict 2 default_brackets 4
     \<and> length (py_slice (map fst example_dict) 4 6) = 1
     \<and> chunk_name (fst (gs ! 0)) = ''(0, 0), (1, 0)''
     \<and> length (filter (\<lambda>c. c = CHR ''('') (chunk_name (fst (gs ! 0)))) = 2
     \<and> chunk_name (fst (gs ! 2)) = ''(4, 0)''
     \<and> length (filter (\<lambda>c. c = CHR ''('') (chunk_name (fst (gs ! 2)))) = 1
     \<and> chunk_data (fst (gs ! 2)) = ''{{{'' @ [CHR 0x27] @ ''#000004'' @ [CHR 0x27] @ ''}}}''"
proof -
  have n: "1 \<le> length example_dict" by (simp add: example_dict_def)
  have c: "ceil_div (length example_dict) 2 = 3" by (simp add: example_dict_def ceil_div_def)
  have u: "[0..<3] = [0, 1, 2::nat]" by (simp add: upt_rec)
  have b: "CHR '']'' \<notin> set (br_open default_brackets)
      \<and> (\<forall>m \<in> set (map snd example_dict). \<forall>row \<in> set m. \<forall>s \<in> set row.
            CHR ''['' \<notin> set s \<and> CHR '']'' \<notin> set s)"
    by (simp add: default_brackets_def example_dict_def)
  have s0: "join '', '' (map repr_coord (py_slice (map fst example_dict) (0 * 2) (0 * 2 + 2))) =
              ''(0, 0), (1, 0)''"
    by (simp add: example_dict_def py_slice_def str_int.simps dec_digit_def)
  have s2: "join '', '' (map repr_coord (py_slice (map fst example_dict) (2 * 2) (2 * 2 + 2))) =
              ''(4, 0)''"
    by (simp add: example_dict_def py_slice_def str_int.simps dec_digit_def)
  have d2: "braced default_brackets (braced default_brackets (braced default_brackets repr_str))
              (py_slice (map snd example_dict) (2 * 2) (2 * 2 + 2)) =
            ''{{{'' @ [CHR 0x27] @ ''#000004'' @ [CHR 0x27] @ ''}}}''"
    by (simp add: example_dict_def py_slice_def braced_def repr_str_def default_brackets_def)
  have g1: "1 \<le> (2::nat)" and g2: "(2::nat) \<le> 10" by simp_all
  from C4_groups [OF n g1 g2, of default_brackets]
  obtain gs where big: "output_generator example_dict 2 default_brackets = Inr gs
    \<and> length gs = ceil_div (length example_dict) 2
    \<and> map snd gs = [0..<ceil_div (length example_dict) 2]
    \<and> (\<forall>k<length gs.
              gs ! k = group_at example_dict 2 default_brackets (k * 2)
              \<and> length (py_slice (map fst example_dict) (k * 2) (k * 2 + 2)) =
                  (if k + 1 < length gs then 2
                   else if length example_dict mod 2 = 0 then 2 else length example_dict mod 2)
              \<and> length (py_slice (map snd example_dict) (k * 2) (k * 2 + 2)) =
                  (if k + 1 < length gs then 2
                   else if length example_dict mod 2 = 0 then 2 else length example_dict mod 2)
              \<and> chunk_name (fst (gs ! k)) =
                  join '', '' (map repr_coord (py_slice (map fst example_dict) (k * 2) (k * 2 + 2)))
              \<and> length (filter (\<lambda>c. c = CHR ''('') (chunk_name (fst (gs ! k)))) =
                  (if k + 1 < length gs then 2
                   else if length example_dict mod 2 = 0 then 2 else length example_dict mod 2)
              \<and> (CHR '']'' \<notin> set (br_open default_brackets)
                   \<and> (\<forall>m \<in> set (map snd example_dict). \<forall>row \<in> set m. \<forall>s \<in> set row.
                         CHR ''['' \<notin> set s \<and> CHR '']'' \<notin> set s) \<longrightarrow>
                 chunk_data (fst (gs ! k)) =
                   braced default_brackets (braced default_brackets (braced default_brackets repr_str))
                     (py_slice (map snd example_dict) (k * 2) (k * 2 + 2))))" ..
  note o = big [THEN conjunct1]
    and l = big [THEN conjunct2, THEN conjunct1]
    and i = big [THEN conjunct2, THEN conjunct2, THEN conjunct1]
    and a = big [THEN conjunct2, THEN conjunct2, THEN conjunct2]
  from l c have l3: "length gs = 3" by simp
  have k0: "0 < length gs" and k2: "2 < length gs" using l3 by simp_all
  have z0: "(if 0 + 1 < length gs then 2
             else if length example_dict mod 2 = 0 then 2 else length example_dict mod 2) = 2"
    using l3 by simp
  have z2: "(if 2 + 1 < length gs then 2
             else if length example_dict mod 2 = 0 then 2 else length example_dict mod 2) = 1"
    using l3 by (simp add: example_dict_def)
  note a0 = a [rule_format, OF k0] and a2 = a [rule_format, OF k2]
  have h0: "chunk_name (fst (gs ! 0)) = ''(0, 0), (1, 0)''"
    using a0 [THEN conjunct2, THEN conjunct2, THEN conjunct2, THEN conjunct1]
    by (simp only: s0)
  have c0: "length (filter (\<lambda>c. c = CHR ''('') (chunk_name (fst (gs ! 0)))) = 2"
    using a0 [THEN conjunct2, THEN conjunct2, THEN conjunct2, THEN conjunct2, THEN conjunct1]
    by (simp only: z0)
  have e2: "gs ! 2 = group_at example_dict 2 default_brackets 4"
    using a2 [THEN conjunct1] by simp
  have l2: "length (py_slice (map fst example_dict) 4 6) = 1"
    using a2 [THEN conjunct2, THEN conjunct1] z2 by simp
  have h2: "chunk_name (fst (gs ! 2)) = ''(4, 0)''"
    using a2 [THEN conjunct2, THEN conjunct2, THEN conjunct2, THEN conjunct1]
    by (simp only: s2)
  have c2: "length (filter (\<lambda>c. c = CHR ''('') (chunk_name (fst (gs ! 2)))) = 1"
    using a2 [THEN conjunct2, THEN conjunct2, THEN conjunct2, THEN conjunct2, THEN conjunct1]
    by (simp only: z2)
  have t2: "chunk_data (fst (gs ! 2)) = ''{{{'' @ [CHR 0x27] @ ''#000004'' @ [CHR 0x27] @ ''}}}''"
    using a2 [THEN conjunct2, THEN conjunct2, THEN conjunct2, THEN conjunct2, THEN conjunct2,
        THEN mp, OF b]
    by (simp only: d2)
  from i c u have i3: "map snd gs = [0, 1, 2]" by simp
  show ?thesis
    by (intro exI [of _ gs] conjI) (rule o l3 i3 e2 l2 h0 c0 h2 c2 t2)+
qed

text \<open>
  C5, as amended.  The open that receives the text of a group is in append mode exactly when
  the target file exists before the call and overwrite is not requested or one-file mode is
  active; in every other case it is in truncate mode.  The index of the group has no part in
  the mode.  The claim as written (append when one-file mode is active, or overwrite is
  requested and the index is greater than zero) fails in both directions on an existing
  per-group file: with overwrite at index 1 the code truncates, without overwrite it
  appends.
\<close>

theorem C5_write_mode:
  "last (opened (store_output w header data img num one_file overwrite add_code)) =
     (output_file_name img num one_file,
      if files w (output_file_name img num one_file) \<noteq> None \<and> (\<not> overwrite \<or> one_file)
      then Append else Truncate)"
  by (simp add: opened_store_output write_mode_def)

theorem C5_write_mode_witness:
  "last (opened (store_output example_world ''h'' ''d'' example_image 1 False False False)) =
     (''tile[2,2](1).txt'', Append)"
  using C5_write_mode [of example_world "''h''" "''d''" example_image 1 False False False]
  by (simp add: example_names example_world_def)

theorem C5_write_mode_counterexample:
  "snd (last (opened (store_output example_world ''h'' ''d'' example_image 1 False True False)))
     \<noteq> spec_write_mode False True 1
   \<and> snd (last (opened (store_output example_world ''h'' ''d'' example_image 1 False False False)))
     \<noteq> spec_write_mode False False 1"
  by (simp add: opened_store_output write_mode_def spec_write_mode_def example_names
      example_world_def)

text \<open>
  C6.  When overwrite is requested and the index of the group is 0, the call first opens the
  target file in truncate mode, writing nothing, and then opens it for the text of the
  group, so that the file holds exactly that text afterwards.  With overwrite and one-file
  mode on a file that exists, the groups of an image leave the file holding their texts in
  order with nothing of the old contents, and the opens of the run are one truncation
  followed by one append for each group.
\<close>

theorem C6_overwrite_truncates:
  "(overwrite \<and> num = 0 \<longrightarrow>
      (\<exists>mode. opened (store_output w header data img num one_file overwrite add_code) =
         opened w @ [(output_file_name img num one_file, Truncate),
                     (output_file_name img num one_file, mode)])
      \<and> files (store_output w header data img num one_file overwrite add_code)
           (output_file_name img num one_file) = Some (group_text header data add_code))
   \<and> (files w (output_file_name img 0 True) = Some old \<and> d \<noteq> [] \<and> 0 < g \<longrightarrow>
        (\<exists>groups. output_generator d g brackets = Inr groups
           \<and> groups \<noteq> []
           \<and> files (write_groups w img groups True True add_code) (output_file_name img 0 True) =
               Some (groups_text groups add_code)
           \<and> opened (write_groups w img groups True True add_code) =
               opened w @ (output_file_name img 0 True, Truncate)
                 # replicate (length groups) (output_file_name img 0 True, Append)))"
proof (intro conjI impI)
  assume "overwrite \<and> num = 0"
  then show "\<exists>mode. opened (store_output w header data img num one_file overwrite add_code) =
         opened w @ [(output_file_name img num one_file, Truncate),
                     (output_file_name img num one_file, mode)]"
    by (simp add: opened_store_output)
next
  assume "overwrite \<and> num = 0"
  then show "files (store_output w header data img num one_file overwrite add_code)
           (output_file_name img num one_file) = Some (group_text header data add_code)"
    by (simp add: files_store_output)
next
  assume a: "files w (output_file_name img 0 True) = Some old \<and> d \<noteq> [] \<and> 0 < g"
  let ?name = "output_file_name img 0 True"
  let ?f = "\<lambda>k. group_at d g brackets (k * g)"
  let ?n = "ceil_div (length d) g"
  let ?groups = "map ?f [0..<?n]"
  from a have g: "0 < g" and old: "files w ?name = Some old" and "0 < length d" by simp_all
  then have n: "0 < ?n" by (simp add: ceil_div_pos)
  have out: "output_generator d g brackets = Inr ?groups" using g by (rule output_generator_Inr)
  from n have split: "?groups = ?f 0 # map ?f [Suc 0..<?n]" by (simp add: upt_conv_Cons)
  let ?w = "store_output w (chunk_name (fst (?f 0))) (chunk_data (fst (?f 0))) img (snd (?f 0))
              True True add_code"
  have s0: "snd (group_at d g brackets 0) = 0" by (simp add: group_at_def)
  have f0: "files ?w ?name = Some (groups_text [?f 0] add_code)"
    by (simp add: s0 files_store_output groups_text_def)
  have o0: "opened ?w = opened w @ [(?name, Truncate), (?name, Append)]"
    using old by (simp add: s0 opened_store_output write_mode_def)
  have rest: "\<forall>grp \<in> set (map ?f [Suc 0..<?n]). 0 < snd grp"
    using snd_group_at [OF g, of d brackets] by auto
  from write_groups_append_only [OF f0 rest]
  have "files (write_groups ?w img (map ?f [Suc 0..<?n]) True True add_code) ?name =
          Some (groups_text [?f 0] add_code @ groups_text (map ?f [Suc 0..<?n]) add_code)"
    and "opened (write_groups ?w img (map ?f [Suc 0..<?n]) True True add_code) =
          opened ?w @ replicate (length (map ?f [Suc 0..<?n])) (?name, Append)"
    by simp_all
  then have "files (write_groups w img ?groups True True add_code) ?name =
               Some (groups_text ?groups add_code)"
    and "opened (write_groups w img ?groups True True add_code) =
               opened w @ (?name, Truncate) # replicate (length ?groups) (?name, Append)"
    unfolding split write_groups_Cons o0
    by (simp_all add: groups_text_def replicate_append_same)
  moreover have "?groups \<noteq> []" using n by simp
  ultimately show "\<exists>groups. output_generator d g brackets = Inr groups
           \<and> groups \<noteq> []
           \<and> files (write_groups w img groups True True add_code) (output_file_name img 0 True) =
               Some (groups_text groups add_code)
           \<and> opened (write_groups w img groups True True add_code) =
               opened w @ (output_file_name img 0 True, Truncate)
                 # replicate (length groups) (output_file_name img 0 True, Append)"
    using out by blast
qed

theorem C6_overwrite_truncates_witness:
  "files (store_output example_world ''h'' ''d'' example_image 0 True True False) ''tile[2,2].txt''
     = Some (group_text ''h'' ''d'' False)
   \<and> (\<exists>groups. output_generator example_dict 2 default_brackets = Inr groups
         \<and> groups \<noteq> []
         \<and> files (write_groups example_world example_image groups True True False) ''tile[2,2].txt''
             = Some (groups_text groups False)
         \<and> opened (write_groups example_world example_image groups True True False)
             = (''tile[2,2].txt'', Truncate) # replicate (length groups) (''tile[2,2].txt'', Append))"
proof -
  have old: "files example_world (output_file_name example_image 0 True) = Some ''old''"
    by (simp add: example_names example_world_def)
  have d: "example_dict \<noteq> []" by (simp add: example_dict_def)
  have o: "opened example_world = []" by (simp add: example_world_def)
  from C6_overwrite_truncates [where overwrite = True and num = 0 and w = example_world
      and header = "''h''" and data = "''d''" and img = example_image and one_file = True
      and add_code = False and old = "''old''" and d = example_dict and g = 2
      and brackets = default_brackets] old d o
  show ?thesis by (simp add: example_names)
qed

text \<open>
  C7.  With add-code on, the text written for a group is the comment line with the header,
  a blank line, \<open>mem.data = \<close> and the data, then the loop snippet, whose coordinate list
  is the header with every parenthesis replaced by a double quote and every space removed.
  With add-code off the text is the comment line, a blank line and the data, with neither
  prefix nor snippet.  Whatever the mode, the target file ends with this text.
\<close>

theorem C7_add_code:
  "group_text header data True =
     ''--'' @ header @ [CHR 0x0A, CHR 0x0A] @ ''mem.data = '' @ data @ [CHR 0x0A]
     @ [CHR 0x0A] @ ''for k,v in ipairs({''
     @ filter (\<lambda>c. c \<noteq> CHR '' '')
         (map (\<lambda>c. if c = CHR ''('' \<or> c = CHR '')'' then CHR 0x22 else c) header)
     @ ''}) do digiline_send(v, mem.data[k]) end'' @ [CHR 0x0A] @ [CHR 0x0A]
   \<and> group_text header data False = ''--'' @ header @ [CHR 0x0A, CHR 0x0A] @ data @ [CHR 0x0A, CHR 0x0A]
   \<and> (\<exists>before. files (store_output w header data img num one_file overwrite add_code)
                    (output_file_name img num one_file)
                  = Some (before @ group_text header data add_code))"
proof -
  have t: "group_text header data True =
     ''--'' @ header @ [CHR 0x0A, CHR 0x0A] @ ''mem.data = '' @ data @ [CHR 0x0A]
     @ [CHR 0x0A] @ ''for k,v in ipairs({''
     @ filter (\<lambda>c. c \<noteq> CHR '' '')
         (map (\<lambda>c. if c = CHR ''('' \<or> c = CHR '')'' then CHR 0x22 else c) header)
     @ ''}) do digiline_send(v, mem.data[k]) end'' @ [CHR 0x0A] @ [CHR 0x0A]"
    unfolding group_text_def front_code_def back_code_def back_code_tokens by simp
  have f: "group_text header data False =
     ''--'' @ header @ [CHR 0x0A, CHR 0x0A] @ data @ [CHR 0x0A, CHR 0x0A]"
    by (simp add: group_text_def front_code_def back_code_def)
  have "\<exists>before. files (store_output w header data img num one_file overwrite add_code)
                    (output_file_name img num one_file)
                  = Some (before @ group_text header data add_code)"
  proof (cases "files w (output_file_name img num one_file)")
    case None
    then have "files (store_output w header data img num one_file overwrite add_code)
                    (output_file_name img num one_file)
                  = Some ([] @ group_text header data add_code)"
      by (simp add: files_store_output)
    then show ?thesis by blast
  next
    case (Some old)
    then have "files (store_output w header data img num one_file overwrite add_code)
                    (output_file_name img num one_file)
                  = Some ([] @ group_text header data add_code)
             \<or> files (store_output w header data img num one_file overwrite add_code)
                    (output_file_name img num one_file)
                  = Some (old @ group_text header data add_code)"
      by (simp add: files_store_output)
    then show ?thesis by blast
  qed
  with t f show ?thesis by blast
qed

theorem C7_add_code_witness:
  "group_text ''(0, 0), (1, 0)'' ''{}'' True =
     ''--(0, 0), (1, 0)'' @ [CHR 0x0A, CHR 0x0A] @ ''mem.data = {}'' @ [CHR 0x0A, CHR 0x0A]
     @ ''for k,v in ipairs({'' @ [CHR 0x22] @ ''0,0'' @ [CHR 0x22] @ '','' @ [CHR 0x22] @ ''1,0''
     @ [CHR 0x22] @ ''}) do digiline_send(v, mem.data[k]) end'' @ [CHR 0x0A, CHR 0x0A]
   \<and> group_text ''(0, 0), (1, 0)'' ''{}'' False =
     ''--(0, 0), (1, 0)'' @ [CHR 0x0A, CHR 0x0A] @ ''{}'' @ [CHR 0x0A, CHR 0x0A]"
  using C7_add_code [of "''(0, 0), (1, 0)''" "''{}''" example_world example_image 0 True True True]
  by simp

text \<open>
  C8.  A candidate that decodes to an image (a non-empty array) lower than the chunk or
  narrower than the chunk, for a chunk size with both sides positive, has
  \<open>floor(height / chunk height) = 0\<close> or \<open>floor(width / chunk width) = 0\<close> and is rejected
  as too small.  The rejection is not fatal: the loop goes on, and the descriptors are
  those of the candidates before it followed by those of the candidates after it.  No
  descriptor of any validation carries its path, and the run of \<open>main\<close> is the processing
  of the descriptors of the other candidates, so it contributes nothing to the output.
\<close>

theorem C8_too_small:
  assumes "imread p = Some a" and "0 < shape0 a" and "0 < shape1 a"
    and "0 < point_x chunk_size" and "0 < point_y chunk_size"
    and "shape0 a < point_y chunk_size \<or> shape1 a < point_x chunk_size"
  shows "(shape0 a div point_y chunk_size = 0 \<or> shape1 a div point_x chunk_size = 0)
     \<and> check_image imread chunk_size p = Inl TooSmallImage
     \<and> get_image_tuples imread (before @ p # after) chunk_size =
         Inr (image_loop imread chunk_size before [] @ image_loop imread chunk_size after [])
     \<and> (\<forall>image_paths image_tuples.
           get_image_tuples imread image_paths chunk_size = Inr image_tuples \<longrightarrow>
           (\<forall>t \<in> set image_tuples. path t \<noteq> p))
     \<and> (chunk_size = \<lparr>point_x = 16, point_y = 16\<rparr> \<longrightarrow>
           main imread (before @ p # after) g add_code one_file overwrite w =
             process_images imread chunk_size g one_file overwrite add_code w
               (image_loop imread chunk_size (before @ after) []))"
proof -
  from assms(4-6) have small: "shape0 a div point_y chunk_size = 0 \<or> shape1 a div point_x chunk_size = 0"
    by auto
  have rej: "check_image imread chunk_size p = Inl TooSmallImage"
    using assms(1-5) small by (auto simp: check_image_def array_size_def Let_def)
  have "image_loop imread chunk_size (p # after) [] = image_loop imread chunk_size after []"
    by (simp add: rej)
  then have loop: "image_loop imread chunk_size (before @ p # after) [] =
      image_loop imread chunk_size before [] @ image_loop imread chunk_size after []"
    by (simp only: image_loop_app [of imread chunk_size before "p # after"])
  then have tuples: "get_image_tuples imread (before @ p # after) chunk_size =
         Inr (image_loop imread chunk_size before [] @ image_loop imread chunk_size after [])"
    by (simp add: get_image_tuples_def)
  have none: "path t \<noteq> p"
    if "get_image_tuples imread image_paths chunk_size = Inr image_tuples" and "t \<in> set image_tuples"
    for image_paths image_tuples t
  proof
    assume "path t = p"
    from that have "t \<in> set (image_loop imread chunk_size image_paths [])"
      by (auto simp: get_image_tuples_def split: if_splits)
    then obtain q where q: "check_image imread chunk_size q = Inr t" using image_loop_mem by blast
    from check_image_Inr [OF q] have "path t = q" by auto
    with \<open>path t = p\<close> q rej show False by simp
  qed
  have run: "main imread (before @ p # after) g add_code one_file overwrite w =
             process_images imread chunk_size g one_file overwrite add_code w
               (image_loop imread chunk_size (before @ after) [])"
    if "chunk_size = \<lparr>point_x = 16, point_y = 16\<rparr>"
    using tuples unfolding that main_def by (simp add: image_loop_app Let_def)
  from small rej tuples none run show ?thesis by blast
qed

theorem C8_too_small_witness:
  "check_image two_files_imread chunk16 ''small.png'' = Inl TooSmallImage
   \<and> get_image_tuples two_files_imread [''small.png'', ''tile.png''] chunk16 = Inr [example_image]"
proof -
  have a: "two_files_imread ''small.png'' = Some small_array"
    by (simp add: two_files_imread_def)
  have h: "0 < shape0 small_array" "0 < shape1 small_array"
    "0 < point_x chunk16" "0 < point_y chunk16"
    "shape0 small_array < point_y chunk16 \<or> shape1 small_array < point_x chunk16"
    by (simp_all add: small_array_def chunk16_def)
  have t: "image_loop two_files_imread chunk16 [''tile.png''] [] = [example_image]"
    by (simp add: check_image_def two_files_imread_def example_array_def chunk16_def
        example_image_def array_size_def)
  from C8_too_small [where imread = two_files_imread and p = "''small.png''" and a = small_array
      and chunk_size = chunk16 and before = "[]" and after = "[''tile.png'']", OF a h] t
  show ?thesis by simp
qed

text \<open>
  C9.  The claim gives every written group the file name stem, \<open>[chx,chy]\<close>, \<open>(index)\<close>
  when one-file mode is off, and \<open>.txt\<close>.  The code takes \<open>stem\<close> of the name it has just
  built before it adds the index, so for an image whose own stem holds a dot, here
  \<open>photo.v2.png\<close>, everything from that dot on is lost, the grid included, when one-file mode
  is off; in one-file mode the name is the one the claim gives.
\<close>

theorem C9_dotted_stem:
  "output_file_name dotted_image 0 False = ''photo(0).txt''
   \<and> spec_file_name dotted_image 0 False = ''photo.v2[2,2](0).txt''
   \<and> output_file_name dotted_image 0 True = ''photo.v2[2,2].txt''"
  by code_simp

text \<open>
  C10.  With overwrite off and one-file mode off, a call whose target file exists makes one
  open, in append mode: the old contents stay and the text of the group follows them, and
  no other file changes.  For any flags, an open in truncate mode made by a call is on a
  file that did not exist before the call, or overwrite is set.
\<close>

theorem C10_append_existing:
  "(\<not> overwrite \<and> \<not> one_file \<and> files w (output_file_name img num one_file) = Some old \<longrightarrow>
      opened (store_output w header data img num one_file overwrite add_code) =
        opened w @ [(output_file_name img num one_file, Append)]
      \<and> files (store_output w header data img num one_file overwrite add_code)
           (output_file_name img num one_file) = Some (old @ group_text header data add_code)
      \<and> (\<forall>f. f \<noteq> output_file_name img num one_file \<longrightarrow>
            files (store_output w header data img num one_file overwrite add_code) f = files w f))
   \<and> (\<forall>e \<in> set (drop (length (opened w))
                   (opened (store_output w header data img num one_file overwrite add_code))).
         snd e = Truncate \<longrightarrow> files w (fst e) = None \<or> overwrite)"
  by (auto simp: opened_store_output files_store_output write_mode_def split: if_splits)

theorem C10_append_existing_witness:
  "opened (store_output example_world ''h'' ''d'' example_image 1 False False False) =
     [(''tile[2,2](1).txt'', Append)]
   \<and> files (store_output example_world ''h'' ''d'' example_image 1 False False False)
        ''tile[2,2](1).txt'' = Some (''old'' @ group_text ''h'' ''d'' False)"
proof -
  have "files example_world (output_file_name example_image 1 False) = Some ''old''"
    by (simp add: example_names example_world_def)
  with C10_append_existing [of False False example_world example_image 1 "''old''" "''h''" "''d''" False]
  show ?thesis by (simp add: example_names example_world_def)
qed

end
